theory Spec2Isabelle
  imports Complex_Main "HOL-Library.AList" "HOL-Library.List_Lexorder"
begin

section \<open>Strings, JSON values and the builtins the scripts rely on\<close>

text \<open>
  A Python \<open>str\<close> is a sequence of Unicode code points, and the scripts look for the
  euro sign and for Cyrillic phrases, so a string is a list of code points here.
  With \<open>List_Lexorder\<close> the order on these lists is the lexicographic one, which is how
  Python compares two \<open>str\<close> values (the \<open>date\<close> fields the reconciler sorts by).
\<close>

type_synonym ustring = "nat list"

definition euro :: nat where
  "euro = 8364"

text \<open>The characters for which \<open>str.isspace\<close> holds; \<open>str.strip()\<close> removes them at both ends.\<close>

definition is_space :: "nat \<Rightarrow> bool" where
  "is_space c \<longleftrightarrow>
     (9 \<le> c \<and> c \<le> 13) \<or> (28 \<le> c \<and> c \<le> 32) \<or> c = 133 \<or> c = 160 \<or> c = 5760 \<or>
     (8192 \<le> c \<and> c \<le> 8202) \<or> c = 8232 \<or> c = 8233 \<or> c = 8239 \<or> c = 8287 \<or> c = 12288"

definition strip :: "ustring \<Rightarrow> ustring" where
  "strip s = rev (dropWhile is_space (rev (dropWhile is_space s)))"

text \<open>\<open>sub in s\<close> on strings: \<open>sub\<close> occurs as a contiguous block of \<open>s\<close>.\<close>

fun starts_with :: "'a list \<Rightarrow> 'a list \<Rightarrow> bool" where
  "starts_with [] s = True"
| "starts_with (p # ps) [] = False"
| "starts_with (p # ps) (c # cs) = (p = c \<and> starts_with ps cs)"

fun contains :: "'a list \<Rightarrow> 'a list \<Rightarrow> bool" where
  "contains sub [] = (sub = [])"
| "contains sub (c # cs) = (starts_with sub (c # cs) \<or> contains sub cs)"

text \<open>\<open>s.replace(old, new)\<close> for a one-character \<open>old\<close>: every occurrence is replaced.\<close>

definition replace_char :: "nat \<Rightarrow> ustring \<Rightarrow> ustring \<Rightarrow> ustring" where
  "replace_char old new s = concat (map (\<lambda>c. if c = old then new else [c]) s)"

text \<open>\<open>str(n)\<close> for an integer, as the f-string \<open>f"user_{user_id}"\<close> formats it.\<close>

fun str_nat :: "nat \<Rightarrow> ustring" where
  "str_nat n = (if n < 10 then [48 + n] else str_nat (n div 10) @ [48 + n mod 10])"

declare str_nat.simps [simp del]

definition str_int :: "int \<Rightarrow> ustring" where
  "str_int i = (if i < 0 then 45 # str_nat (nat (- i)) else str_nat (nat i))"

text \<open>
  \<open>float(s)\<close> on a string. The builtin strips surrounding whitespace and then accepts a
  decimal literal; anything else raises \<open>ValueError\<close>, which is \<open>None\<close> here. The model
  covers the plain literals \<open>[sign] digits [. [digits]]\<close> and \<open>[sign] . digits\<close> over
  the ASCII digits and returns the exact value of the literal as a rational. Python
  rounds that value to the nearest double, and also accepts exponents, digit grouping
  with underscores, \<open>inf\<close>, \<open>nan\<close> and non-ASCII decimal digits; those inputs are outside
  the model's domain (it answers \<open>None\<close> on them).
\<close>

definition is_digit :: "nat \<Rightarrow> bool" where
  "is_digit c \<longleftrightarrow> 48 \<le> c \<and> c \<le> 57"

definition digits_value :: "ustring \<Rightarrow> nat" where
  "digits_value ds = foldl (\<lambda>acc c. 10 * acc + (c - 48)) 0 ds"

definition unsigned_float :: "ustring \<Rightarrow> rat option" where
  "unsigned_float u =
     (let ip = takeWhile is_digit u; rest = dropWhile is_digit u
      in case rest of
           [] \<Rightarrow> if ip = [] then None else Some (of_nat (digits_value ip))
         | c # fp \<Rightarrow>
             if c = 46 \<and> list_all is_digit fp \<and> \<not> (ip = [] \<and> fp = [])
             then Some (of_nat (digits_value (ip @ fp)) / 10 ^ length fp)
             else None)"

definition py_float :: "ustring \<Rightarrow> rat option" where
  "py_float s =
     (case strip s of
        [] \<Rightarrow> None
      | c # r \<Rightarrow>
          if c = 45 then map_option uminus (unsigned_float r)
          else if c = 43 then unsigned_float r
          else unsigned_float (c # r))"

section \<open>Messages of the chat export\<close>

text \<open>
  An entity of \<open>text_entities\<close>: its \<open>type\<close>, its \<open>text\<close> (\<open>entity.get('text', '')\<close>, so an
  absent text is the empty string) and its \<open>user_id\<close> (\<open>None\<close> when absent).
\<close>

record entity =
  ent_type :: string
  ent_text :: ustring
  ent_user_id :: "int option"

text \<open>The \<open>text\<close> of a message is a string or a list of strings and styled runs.\<close>

datatype text_item = Plain ustring | Styled ustring

datatype text_field = TextStr ustring | TextList "text_item list"

record message =
  m_text :: text_field
  text_entities :: "entity list"
  m_date :: "ustring option"

fun item_text :: "text_item \<Rightarrow> ustring" where
  "item_text (Plain s) = s"
| "item_text (Styled s) = s"

fun extract_text :: "message \<Rightarrow> ustring" where
  "extract_text m =
     (case m_text m of TextStr s \<Rightarrow> s | TextList items \<Rightarrow> concat (map item_text items))"

text \<open>
  \<open>extract_user_id\<close>, the same in all three scripts: the loop returns at the first
  \<open>mention\<close> entity, or at the first \<open>mention_name\<close> entity whose \<open>user_id\<close> is truthy;
  a \<open>mention_name\<close> entity without one is passed over.
\<close>

fun scan_user_id :: "entity list \<Rightarrow> ustring option" where
  "scan_user_id [] = None"
| "scan_user_id (e # es) =
     (if ent_type e = ''mention'' then Some (strip (ent_text e))
      else if ent_type e = ''mention_name'' then
        (case ent_user_id e of
           Some uid \<Rightarrow> if uid \<noteq> 0 then Some ([117, 115, 101, 114, 95] @ str_int uid)
                       else scan_user_id es
         | None \<Rightarrow> scan_user_id es)
      else scan_user_id es)"

definition extract_user_id :: "message \<Rightarrow> ustring option" where
  "extract_user_id m = scan_user_id (text_entities m)"

text \<open>
  \<open>extract_amount\<close>, the same in all three scripts: a bold entity whose text starts with
  the euro sign is parsed; on \<open>ValueError\<close> the handler is \<open>pass\<close> and the loop goes on.
\<close>

definition amount_text :: "ustring \<Rightarrow> ustring" where
  "amount_text t = replace_char 44 [46] (replace_char euro [] t)"

fun scan_amount :: "entity list \<Rightarrow> rat option" where
  "scan_amount [] = None"
| "scan_amount (e # es) =
     (if ent_type e = ''bold'' \<and> starts_with [euro] (ent_text e) then
        (case py_float (amount_text (ent_text e)) of
           Some v \<Rightarrow> Some v
         | None \<Rightarrow> scan_amount es)
      else scan_amount es)"

definition extract_amount :: "message \<Rightarrow> rat option" where
  "extract_amount m = scan_amount (text_entities m)"

section \<open>The phrases that classify a message\<close>

definition created_phrase :: ustring where
  "created_phrase =
     [1086, 1092, 1086, 1088, 1084, 1080, 1083, 32, 1087, 1086, 1076, 1087, 1080, 1089, 1082, 1091]"

definition renewed_phrase :: ustring where
  "renewed_phrase =
     [1087, 1088, 1086, 1076, 1083, 1080, 1083, 32, 1087, 1086, 1076, 1087, 1080, 1089, 1082, 1091]"

definition cancel_word :: ustring where
  "cancel_word = [1086, 1090, 1084, 1077, 1085, 1080, 1083]"

definition subscription_noun :: ustring where
  "subscription_noun = [1087, 1086, 1076, 1087, 1080, 1089, 1082, 1091]"

section \<open>\<open>scripts/reimport_with_cancellations.py\<close>: first pass\<close>

datatype event_type = Created | Renewed | Cancelled

text \<open>The dictionary appended to \<open>user_subscriptions[user_id]\<close>.\<close>

record event =
  ev_date :: ustring
  ev_amount :: "rat option"
  ev_type :: event_type
  ev_username :: "ustring option"

text \<open>The username: the text of the first \<open>mention\<close> entity with every \<open>@\<close> removed.\<close>

fun scan_username :: "entity list \<Rightarrow> ustring option" where
  "scan_username [] = None"
| "scan_username (e # es) =
     (if ent_type e = ''mention'' then Some (replace_char 64 [] (ent_text e))
      else scan_username es)"

text \<open>
  The body of the first loop of \<open>main\<close>: the pair (user, event) it appends, or \<open>None\<close>
  when the message is skipped. \<open>not user_id\<close> holds for \<open>None\<close> and for the empty
  string, \<open>not date\<close> likewise, and \<open>if amount\<close> fails for \<open>None\<close> and for zero.
\<close>

definition collect_event :: "message \<Rightarrow> (ustring \<times> event) option" where
  "collect_event m =
     (let text = extract_text m in
      case extract_user_id m of
        None \<Rightarrow> None
      | Some user_id \<Rightarrow>
          (case m_date m of
             None \<Rightarrow> None
           | Some date \<Rightarrow>
               if user_id = [] \<or> date = [] then None
               else
                 let username = scan_username (text_entities m) in
                 if contains created_phrase text then
                   (case extract_amount m of
                      Some amount \<Rightarrow>
                        if amount \<noteq> 0 then
                          Some (user_id, \<lparr>ev_date = date, ev_amount = Some amount,
                                          ev_type = Created, ev_username = username\<rparr>)
                        else None
                    | None \<Rightarrow> None)
                 else if contains renewed_phrase text then
                   (case extract_amount m of
                      Some amount \<Rightarrow>
                        if amount \<noteq> 0 then
                          Some (user_id, \<lparr>ev_date = date, ev_amount = Some amount,
                                          ev_type = Renewed, ev_username = username\<rparr>)
                        else None
                    | None \<Rightarrow> None)
                 else if contains cancel_word text \<and> contains subscription_noun text then
                   Some (user_id, \<lparr>ev_date = date, ev_amount = None,
                                   ev_type = Cancelled, ev_username = username\<rparr>)
                 else None))"

text \<open>
  \<open>user_subscriptions\<close> is a \<open>defaultdict(list)\<close>: a dictionary in insertion order, so
  an association list; appending to a missing user adds the user at the end.
\<close>

fun append_event :: "ustring \<Rightarrow> event \<Rightarrow> (ustring \<times> event list) list \<Rightarrow> (ustring \<times> event list) list" where
  "append_event u e [] = [(u, [e])]"
| "append_event u e ((k, es) # rest) =
     (if k = u then (k, es @ [e]) # rest else (k, es) # append_event u e rest)"

definition first_pass :: "message list \<Rightarrow> (ustring \<times> event list) list" where
  "first_pass messages =
     foldl (\<lambda>user_subscriptions m.
              case collect_event m of
                None \<Rightarrow> user_subscriptions
              | Some (u, e) \<Rightarrow> append_event u e user_subscriptions)
       [] messages"

section \<open>\<open>scripts/reimport_with_cancellations.py\<close>: second pass, the reconciler\<close>

text \<open>A row inserted into \<open>subscription_events\<close>.\<close>

record db_row =
  row_user_id :: ustring
  row_username :: "ustring option"
  row_amount :: "rat option"
  row_event_type :: event_type
  row_event_date :: ustring

record import_state =
  rows :: "db_row list"
  imported :: nat
  cancellations_matched :: nat
  cancellations_unmatched :: nat

definition init_state :: import_state where
  "init_state = \<lparr>rows = [], imported = 0, cancellations_matched = 0,
                 cancellations_unmatched = 0\<rparr>"

text \<open>
  \<open>active_amounts\<close> maps an amount to the date of its last \<open>subscription.created\<close>
  event. It is a dictionary in insertion order: assigning to a present key keeps the
  key's place, which is what \<open>AList.update\<close> does, and \<open>del\<close> removes the key. Its keys
  are \<open>event['amount']\<close> values, hence of the same type as \<open>ev_amount\<close>.
\<close>

type_synonym active_amounts = "(rat option \<times> ustring) list"

text \<open>
  \<open>max(items, key=lambda x: x[1])\<close> on a non-empty sequence: the running maximum is
  replaced only by an item whose key is strictly greater, so the first of several
  maximal items is returned.
\<close>

fun max_by_date :: "('k \<times> ustring) \<Rightarrow> ('k \<times> ustring) list \<Rightarrow> ('k \<times> ustring)" where
  "max_by_date best [] = best"
| "max_by_date best (x # xs) = max_by_date (if snd best < snd x then x else best) xs"

definition insert_row :: "ustring \<Rightarrow> event \<Rightarrow> rat option \<Rightarrow> import_state \<Rightarrow> import_state" where
  "insert_row user_id ev amount st =
     st\<lparr>rows := rows st @ [\<lparr>row_user_id = user_id, row_username = ev_username ev,
                              row_amount = amount, row_event_type = ev_type ev,
                              row_event_date = ev_date ev\<rparr>],
         imported := imported st + 1\<rparr>"

text \<open>The body of the inner loop of the second pass, for one event of one user.\<close>

definition process_event :: "ustring \<Rightarrow> event \<Rightarrow> active_amounts \<times> import_state \<Rightarrow> active_amounts \<times> import_state" where
  "process_event user_id ev s =
     (case s of (active, st) \<Rightarrow>
        (case ev_type ev of
           Created \<Rightarrow>
             (AList.update (ev_amount ev) (ev_date ev) active,
              insert_row user_id ev (ev_amount ev) st)
         | Renewed \<Rightarrow>
             (active, insert_row user_id ev (ev_amount ev) st)
         | Cancelled \<Rightarrow>
             (case active of
                [] \<Rightarrow>
                  (active, st\<lparr>cancellations_unmatched := cancellations_unmatched st + 1\<rparr>)
              | x # xs \<Rightarrow>
                  let last_amount = fst (max_by_date x xs) in
                  (AList.delete last_amount active,
                   (insert_row user_id ev last_amount st)
                     \<lparr>cancellations_matched := cancellations_matched st + 1\<rparr>))))"

text \<open>
  One user of the second pass: \<open>events.sort(key=lambda x: x['date'])\<close> is a stable sort,
  as \<open>sort_key\<close> is, then the events are walked with a fresh \<open>active_amounts\<close>.
\<close>

definition walk_events :: "ustring \<Rightarrow> event list \<Rightarrow> active_amounts \<times> import_state \<Rightarrow> active_amounts \<times> import_state" where
  "walk_events user_id events s = foldl (\<lambda>acc ev. process_event user_id ev acc) s events"

definition reconcile_user :: "ustring \<Rightarrow> event list \<Rightarrow> import_state \<Rightarrow> active_amounts \<times> import_state" where
  "reconcile_user user_id events st = walk_events user_id (sort_key ev_date events) ([], st)"

definition second_pass :: "(ustring \<times> event list) list \<Rightarrow> import_state" where
  "second_pass user_subscriptions =
     foldl (\<lambda>st (user_id, events). snd (reconcile_user user_id events st))
       init_state user_subscriptions"

section \<open>\<open>scripts/import_telegram_export.py\<close>: the loop of \<open>import_data\<close>\<close>

text \<open>
  The row the loop body inserts, or \<open>None\<close> when it skips the message: user, amount and
  date are all tested for truthiness before the message is classified.
\<close>

definition import_message :: "message \<Rightarrow> db_row option" where
  "import_message m =
     (let text = extract_text m in
      case extract_user_id m of
        None \<Rightarrow> None
      | Some user_id \<Rightarrow>
          (case extract_amount m of
             None \<Rightarrow> None
           | Some amount \<Rightarrow>
               (case m_date m of
                  None \<Rightarrow> None
                | Some date \<Rightarrow>
                    if user_id = [] \<or> amount = 0 \<or> date = [] then None
                    else
                      let mk = (\<lambda>t. \<lparr>row_user_id = user_id,
                                       row_username = scan_username (text_entities m),
                                       row_amount = Some amount, row_event_type = t,
                                       row_event_date = date\<rparr>) in
                      if contains created_phrase text then Some (mk Created)
                      else if contains renewed_phrase text then Some (mk Renewed)
                      else if contains cancel_word text \<and> contains subscription_noun text
                      then Some (mk Cancelled)
                      else None)))"

section \<open>\<open>analyze_subscriptions.py\<close>: collecting \<open>user_data\<close>\<close>

text \<open>
  \<open>user_data[user_id]\<close> is a dictionary whose keys are amounts and, once the user has
  cancelled, the string \<open>'_cancelled'\<close>. The two kinds of key cannot collide, so a
  user's entry is the association list of the amounts and the optional
  \<open>'_cancelled'\<close> date. Under an amount the script keeps the lists \<open>subscriptions\<close> and
  \<open>renewals\<close> (and a field \<open>cancelled\<close> that it never writes). Both levels are
  \<open>defaultdict\<close>s: indexing a missing key creates the empty value.
\<close>

record tier_info =
  subscriptions :: "ustring list"
  renewals :: "ustring list"

record user_entry =
  tiers :: "(rat \<times> tier_info) list"
  cancelled_mark :: "ustring option"

type_synonym user_data = "(ustring \<times> user_entry) list"

definition entry_of :: "user_data \<Rightarrow> ustring \<Rightarrow> user_entry" where
  "entry_of ud u =
     (case map_of ud u of Some e \<Rightarrow> e | None \<Rightarrow> \<lparr>tiers = [], cancelled_mark = None\<rparr>)"

definition info_of :: "user_entry \<Rightarrow> rat \<Rightarrow> tier_info" where
  "info_of e a =
     (case map_of (tiers e) a of Some i \<Rightarrow> i | None \<Rightarrow> \<lparr>subscriptions = [], renewals = []\<rparr>)"

definition add_subscription :: "ustring \<Rightarrow> rat \<Rightarrow> ustring \<Rightarrow> user_data \<Rightarrow> user_data" where
  "add_subscription u a d ud =
     (let e = entry_of ud u; i = info_of e a in
      AList.update u
        (e\<lparr>tiers := AList.update a (i\<lparr>subscriptions := subscriptions i @ [d]\<rparr>) (tiers e)\<rparr>) ud)"

definition add_renewal :: "ustring \<Rightarrow> rat \<Rightarrow> ustring \<Rightarrow> user_data \<Rightarrow> user_data" where
  "add_renewal u a d ud =
     (let e = entry_of ud u; i = info_of e a in
      AList.update u
        (e\<lparr>tiers := AList.update a (i\<lparr>renewals := renewals i @ [d]\<rparr>) (tiers e)\<rparr>) ud)"

definition set_cancelled :: "ustring \<Rightarrow> ustring \<Rightarrow> user_data \<Rightarrow> user_data" where
  "set_cancelled u d ud = AList.update u ((entry_of ud u)\<lparr>cancelled_mark := Some d\<rparr>) ud"

text \<open>
  The body of the message loop. The text is flattened as \<open>extract_text\<close> does, and
  \<open>message.get('date', '')\<close> makes a missing date the empty string.
\<close>

definition analyze_message :: "message \<Rightarrow> user_data \<Rightarrow> user_data" where
  "analyze_message m ud =
     (let text = extract_text m in
      case extract_user_id m of
        None \<Rightarrow> ud
      | Some user_id \<Rightarrow>
          if user_id = [] then ud
          else
            let date = (case m_date m of Some d \<Rightarrow> d | None \<Rightarrow> []) in
            if contains created_phrase text then
              (case extract_amount m of
                 Some amount \<Rightarrow> if amount \<noteq> 0 then add_subscription user_id amount date ud else ud
               | None \<Rightarrow> ud)
            else if contains renewed_phrase text then
              (case extract_amount m of
                 Some amount \<Rightarrow> if amount \<noteq> 0 then add_renewal user_id amount date ud else ud
               | None \<Rightarrow> ud)
            else if contains cancel_word text \<and> contains subscription_noun text then
              set_cancelled user_id date ud
            else ud)"

definition collect_user_data :: "message list \<Rightarrow> user_data" where
  "collect_user_data messages = foldl (\<lambda>ud m. analyze_message m ud) [] messages"

section \<open>\<open>analyze_subscriptions.py\<close>: the figures per amount\<close>

text \<open>
  The loop over \<open>user_data.items()\<close> for one amount. A user is taken only when the
  amount is a key of the user's entry and its \<open>subscriptions\<close> list is non-empty.
\<close>

definition has_subscription :: "rat \<Rightarrow> user_entry \<Rightarrow> bool" where
  "has_subscription amount e =
     (case map_of (tiers e) amount of Some i \<Rightarrow> subscriptions i \<noteq> [] | None \<Rightarrow> False)"

definition users_with_amount :: "rat \<Rightarrow> user_data \<Rightarrow> ustring set" where
  "users_with_amount amount ud = set (map fst (filter (\<lambda>(u, e). has_subscription amount e) ud))"






text \<open>
  The distribution block, printed only when \<open>renewals_per_user\<close> is non-empty. The
  median is \<open>sorted(renewals_per_user)[len(renewals_per_user)//2]\<close>; the index is in
  range because the list is not empty.
\<close>

record distribution =
  dist_min :: nat
  dist_max :: nat
  dist_median :: nat
  no_renewals :: nat
  one_renewal :: nat
  multiple_renewals :: nat

definition renewal_distribution :: "nat list \<Rightarrow> distribution option" where
  "renewal_distribution rpu =
     (case rpu of
        [] \<Rightarrow> None
      | x # xs \<Rightarrow>
          Some \<lparr>dist_min = fold min xs x,
                dist_max = fold max xs x,
                dist_median = sort rpu ! (length rpu div 2),
                no_renewals = length (filter (\<lambda>r. r = 0) rpu),
                one_renewal = length (filter (\<lambda>r. r = 1) rpu),
                multiple_renewals = length (filter (\<lambda>r. r > 1) rpu)\<rparr>)"

section \<open>Counting events and rows\<close>

definition cancelled_rows :: "import_state \<Rightarrow> nat" where
  "cancelled_rows st = length (filter (\<lambda>r. row_event_type r = Cancelled) (rows st))"

definition count_type :: "event_type \<Rightarrow> event list \<Rightarrow> nat" where
  "count_type t events = length (filter (\<lambda>e. ev_type e = t) events)"

section \<open>Which messages \<open>analyze_subscriptions\<close> records as events\<close>

text \<open>
  The guard under which the message loop of \<open>analyze_subscriptions\<close> reaches
  \<open>user_data[user_id][amount]['subscriptions'].append(date)\<close>, and the guard under which
  it reaches \<open>user_data[user_id][amount]['renewals'].append(date)\<close> (the \<open>elif\<close> branch).
\<close>

definition created_event :: "message \<Rightarrow> ustring \<Rightarrow> rat \<Rightarrow> bool" where
  "created_event m u a \<longleftrightarrow>
     extract_user_id m = Some u \<and> u \<noteq> [] \<and> contains created_phrase (extract_text m) \<and>
     extract_amount m = Some a \<and> a \<noteq> 0"

definition renewed_event :: "message \<Rightarrow> ustring \<Rightarrow> rat \<Rightarrow> bool" where
  "renewed_event m u a \<longleftrightarrow>
     extract_user_id m = Some u \<and> u \<noteq> [] \<and> \<not> contains created_phrase (extract_text m) \<and>
     contains renewed_phrase (extract_text m) \<and> extract_amount m = Some a \<and> a \<noteq> 0"

section \<open>Properties of the reconciler\<close>

lemma max_by_date_mem: "max_by_date b xs \<in> set (b # xs)"
proof (induction xs arbitrary: b)
  case Nil
  show ?case by simp
next
  case (Cons x xs)
  have "max_by_date (if snd b < snd x then x else b) xs
          \<in> set ((if snd b < snd x then x else b) # xs)"
    by (rule Cons.IH)
  then show ?case by (auto split: if_splits)
qed

lemma max_by_date_start: "snd b \<le> snd (max_by_date b xs)"
proof (induction xs arbitrary: b)
  case Nil
  show ?case by simp
next
  case (Cons x xs)
  have "snd (if snd b < snd x then x else b)
          \<le> snd (max_by_date (if snd b < snd x then x else b) xs)"
    by (rule Cons.IH)
  then show ?case by (auto split: if_splits)
qed

lemma max_by_date_ge: "y \<in> set (b # xs) \<Longrightarrow> snd y \<le> snd (max_by_date b xs)"
proof (induction xs arbitrary: b y)
  case Nil
  then show ?case by simp
next
  case (Cons x xs)
  let ?b' = "if snd b < snd x then x else b"
  have start: "snd ?b' \<le> snd (max_by_date ?b' xs)" by (rule max_by_date_start)
  from Cons.prems consider "y = b" | "y = x" | "y \<in> set xs" by auto
  then show ?case
  proof cases
    case 1
    with start show ?thesis by (auto split: if_splits)
  next
    case 2
    with start show ?thesis by (auto split: if_splits)
  next
    case 3
    then have "y \<in> set (?b' # xs)" by simp
    then have "snd y \<le> snd (max_by_date ?b' xs)" by (rule Cons.IH)
    then show ?thesis by simp
  qed
qed

lemma walk_events_Nil: "walk_events u [] s = s"
  by (simp add: walk_events_def)

lemma walk_events_Cons: "walk_events u (e # es) s = walk_events u es (process_event u e s)"
  by (simp add: walk_events_def)

lemma length_delete_present:
  assumes "p \<in> set al"
  shows "length (AList.delete (fst p) al) < length al"
proof -
  have "length (filter (\<lambda>(k', _). fst p \<noteq> k') al) < length al"
    using assms by (rule length_filter_less) (simp add: case_prod_beta)
  then show ?thesis by (simp only: AList.delete_eq)
qed

lemma length_update_le: "length (AList.update k v al) \<le> Suc (length al)"
  by (induction al) auto

lemma count_type_Cons:
  "count_type t (e # es) = (if ev_type e = t then 1 else 0) + count_type t es"
  by (simp add: count_type_def)

lemma count_type_sort: "count_type t (sort_key f events) = count_type t events"
proof -
  have "filter (\<lambda>e. ev_type e = t) (sort_key f events)
          = sort_key f (filter (\<lambda>e. ev_type e = t) events)"
    by (rule filter_sort)
  then show ?thesis by (simp add: count_type_def)
qed

lemma process_event_cancelled_nonempty:
  assumes "ev_type ev = Cancelled"
  shows "process_event u ev (x # xs, st) =
           (AList.delete (fst (max_by_date x xs)) (x # xs),
            st\<lparr>rows := rows st @ [\<lparr>row_user_id = u, row_username = ev_username ev,
                                     row_amount = fst (max_by_date x xs),
                                     row_event_type = Cancelled,
                                     row_event_date = ev_date ev\<rparr>],
                imported := imported st + 1,
                cancellations_matched := cancellations_matched st + 1\<rparr>)"
  using assms by (simp add: process_event_def insert_row_def Let_def)

lemma process_event_bound:
  assumes "process_event u ev (active, st) = (active', st')"
  shows "length active' + cancelled_rows st'
           \<le> length active + cancelled_rows st + (if ev_type ev = Created then 1 else 0)"
proof (cases "ev_type ev")
  case Created
  have "length (AList.update (ev_amount ev) (ev_date ev) active) \<le> Suc (length active)"
    by (rule length_update_le)
  with assms Created show ?thesis
    by (auto simp: process_event_def insert_row_def cancelled_rows_def)
next
  case Renewed
  with assms show ?thesis
    by (auto simp: process_event_def insert_row_def cancelled_rows_def)
next
  case Cancelled
  show ?thesis
  proof (cases active)
    case Nil
    with assms Cancelled show ?thesis
      by (auto simp: process_event_def cancelled_rows_def)
  next
    case (Cons x xs)
    have mem: "max_by_date x xs \<in> set (x # xs)" by (rule max_by_date_mem)
    have less: "length (AList.delete (fst (max_by_date x xs)) (x # xs)) < length (x # xs)"
      using mem by (rule length_delete_present)
    have eq: "process_event u ev (x # xs, st) =
           (AList.delete (fst (max_by_date x xs)) (x # xs),
            st\<lparr>rows := rows st @ [\<lparr>row_user_id = u, row_username = ev_username ev,
                                     row_amount = fst (max_by_date x xs),
                                     row_event_type = Cancelled,
                                     row_event_date = ev_date ev\<rparr>],
                imported := imported st + 1,
                cancellations_matched := cancellations_matched st + 1\<rparr>)"
      using Cancelled by (rule process_event_cancelled_nonempty)
    from assms Cons eq
    have a': "active' = AList.delete (fst (max_by_date x xs)) (x # xs)"
      by (simp del: delete_simps)
    from assms Cons eq
    have r': "cancelled_rows st' = Suc (cancelled_rows st)"
      by (auto simp del: delete_simps simp add: cancelled_rows_def)
    from less a' r' Cons Cancelled show ?thesis by (simp del: delete_simps)
  qed
qed

lemma walk_events_bound:
  "walk_events u events (active, st) = (active', st') \<Longrightarrow>
     length active' + cancelled_rows st'
       \<le> length active + cancelled_rows st + count_type Created events"
proof (induction events arbitrary: active st)
  case Nil
  then show ?case by (simp add: walk_events_Nil count_type_def)
next
  case (Cons e es)
  obtain a1 s1 where step: "process_event u e (active, st) = (a1, s1)"
    by (cases "process_event u e (active, st)")
  from Cons.prems step have "walk_events u es (a1, s1) = (active', st')"
    by (simp add: walk_events_Cons)
  then have "length active' + cancelled_rows st'
               \<le> length a1 + cancelled_rows s1 + count_type Created es"
    by (rule Cons.IH)
  moreover have "length a1 + cancelled_rows s1
               \<le> length active + cancelled_rows st + (if ev_type e = Created then 1 else 0)"
    using step by (rule process_event_bound)
  ultimately show ?case by (simp add: count_type_Cons split: if_splits)
qed

lemma process_event_matched_rows:
  assumes "process_event u ev (active, st) = (active', st')"
  shows "cancellations_matched st' + cancelled_rows st
           = cancellations_matched st + cancelled_rows st'"
proof (cases "ev_type ev")
  case Created
  with assms show ?thesis
    by (auto simp: process_event_def insert_row_def cancelled_rows_def)
next
  case Renewed
  with assms show ?thesis
    by (auto simp: process_event_def insert_row_def cancelled_rows_def)
next
  case Cancelled
  show ?thesis
  proof (cases active)
    case Nil
    with assms Cancelled show ?thesis
      by (auto simp: process_event_def cancelled_rows_def)
  next
    case (Cons x xs)
    with assms Cancelled show ?thesis
      by (auto simp del: delete_simps
               simp add: process_event_cancelled_nonempty cancelled_rows_def)
  qed
qed

lemma walk_events_matched_rows:
  "walk_events u events (active, st) = (active', st') \<Longrightarrow>
     cancellations_matched st' + cancelled_rows st
       = cancellations_matched st + cancelled_rows st'"
proof (induction events arbitrary: active st)
  case Nil
  then show ?case by (simp add: walk_events_Nil)
next
  case (Cons e es)
  obtain a1 s1 where step: "process_event u e (active, st) = (a1, s1)"
    by (cases "process_event u e (active, st)")
  from Cons.prems step have "walk_events u es (a1, s1) = (active', st')"
    by (simp add: walk_events_Cons)
  then have "cancellations_matched st' + cancelled_rows s1
               = cancellations_matched s1 + cancelled_rows st'"
    by (rule Cons.IH)
  moreover have "cancellations_matched s1 + cancelled_rows st
               = cancellations_matched st + cancelled_rows s1"
    using step by (rule process_event_matched_rows)
  ultimately show ?case by simp
qed

lemma walk_events_without_created:
  "\<forall>e \<in> set events. ev_type e \<noteq> Created \<Longrightarrow>
     fst (walk_events u events ([], st)) = [] \<and>
     cancellations_matched (snd (walk_events u events ([], st))) = cancellations_matched st \<and>
     cancellations_unmatched (snd (walk_events u events ([], st)))
       = cancellations_unmatched st + count_type Cancelled events"
proof (induction events arbitrary: st)
  case Nil
  show ?case by (simp add: walk_events_Nil count_type_def)
next
  case (Cons e es)
  from Cons.prems have rest: "\<forall>e \<in> set es. ev_type e \<noteq> Created"
    and e: "ev_type e \<noteq> Created" by simp_all
  show ?case
  proof (cases "ev_type e")
    case Created
    with e show ?thesis by simp
  next
    case Renewed
    then have step: "process_event u e ([], st) = ([], insert_row u e (ev_amount e) st)"
      by (simp add: process_event_def)
    show ?thesis
      using Cons.IH [OF rest, of "insert_row u e (ev_amount e) st"] Renewed
      by (simp add: walk_events_Cons step count_type_Cons insert_row_def)
  next
    case Cancelled
    then have step: "process_event u e ([], st)
        = ([], st\<lparr>cancellations_unmatched := cancellations_unmatched st + 1\<rparr>)"
      by (simp add: process_event_def)
    show ?thesis
      using Cons.IH [OF rest, of "st\<lparr>cancellations_unmatched := cancellations_unmatched st + 1\<rparr>"]
        Cancelled
      by (simp add: walk_events_Cons step count_type_Cons)
  qed
qed

lemma count_type_zero: "count_type t events = 0 \<longleftrightarrow> (\<forall>e \<in> set events. ev_type e \<noteq> t)"
  by (simp add: count_type_def filter_empty_conv)

text \<open>
  Claim C1. When a \<open>subscription.cancelled\<close> event meets a non-empty \<open>active_amounts\<close>,
  the inserted cancellation row carries an amount \<open>a\<close> that is open with a date no
  other open amount exceeds, the row and the two counters are the only change to the
  state, and \<open>a\<close> is the one key removed from \<open>active_amounts\<close>. In particular the
  events Created(5), Created(9), Cancelled at dates \<open>d1 < d2 \<le> d3\<close> give a
  cancellation of amount 9 and leave amount 5 open. (When several open amounts share
  the greatest date, \<open>max\<close> returns the one inserted first.)
\<close>

theorem cancelled_closes_latest_open_tier:
  "(ev_type ev = Cancelled \<and> active \<noteq> [] \<longrightarrow>
      (\<exists>a d. (a, d) \<in> set active \<and> (\<forall>p \<in> set active. snd p \<le> d) \<and>
         process_event u ev (active, st) =
           (AList.delete a active,
            st\<lparr>rows := rows st @ [\<lparr>row_user_id = u, row_username = ev_username ev,
                                     row_amount = a, row_event_type = Cancelled,
                                     row_event_date = ev_date ev\<rparr>],
                imported := imported st + 1,
                cancellations_matched := cancellations_matched st + 1\<rparr>) \<and>
         map_of (AList.delete a active) = (map_of active)(a := None))) \<and>
   (d1 < d2 \<and> d2 \<le> d3 \<longrightarrow>
      reconcile_user u
        [\<lparr>ev_date = d1, ev_amount = Some 5, ev_type = Created, ev_username = n1\<rparr>,
         \<lparr>ev_date = d2, ev_amount = Some 9, ev_type = Created, ev_username = n2\<rparr>,
         \<lparr>ev_date = d3, ev_amount = None, ev_type = Cancelled, ev_username = n3\<rparr>]
        init_state =
      ([(Some 5, d1)],
       \<lparr>rows = [\<lparr>row_user_id = u, row_username = n1, row_amount = Some 5,
                  row_event_type = Created, row_event_date = d1\<rparr>,
                 \<lparr>row_user_id = u, row_username = n2, row_amount = Some 9,
                  row_event_type = Created, row_event_date = d2\<rparr>,
                 \<lparr>row_user_id = u, row_username = n3, row_amount = Some 9,
                  row_event_type = Cancelled, row_event_date = d3\<rparr>],
        imported = 3, cancellations_matched = 1, cancellations_unmatched = 0\<rparr>))"
proof (intro conjI impI)
  assume h: "ev_type ev = Cancelled \<and> active \<noteq> []"
  then obtain x xs where act: "active = x # xs" by (cases active) auto
  let ?m = "max_by_date x xs"
  have mem: "?m \<in> set active" using act max_by_date_mem [of x xs] by simp
  have ge: "\<forall>p \<in> set active. snd p \<le> snd ?m"
    using act max_by_date_ge [of _ x xs] by simp
  have step: "process_event u ev (active, st) =
           (AList.delete (fst ?m) active,
            st\<lparr>rows := rows st @ [\<lparr>row_user_id = u, row_username = ev_username ev,
                                     row_amount = fst ?m, row_event_type = Cancelled,
                                     row_event_date = ev_date ev\<rparr>],
                imported := imported st + 1,
                cancellations_matched := cancellations_matched st + 1\<rparr>)"
    using h act process_event_cancelled_nonempty [of ev u x xs st] by simp
  have del: "map_of (AList.delete (fst ?m) active) = (map_of active)(fst ?m := None)"
    by (rule delete_conv')
  from mem have "(fst ?m, snd ?m) \<in> set active" by simp
  with ge step del show "\<exists>a d. (a, d) \<in> set active \<and> (\<forall>p \<in> set active. snd p \<le> d) \<and>
         process_event u ev (active, st) =
           (AList.delete a active,
            st\<lparr>rows := rows st @ [\<lparr>row_user_id = u, row_username = ev_username ev,
                                     row_amount = a, row_event_type = Cancelled,
                                     row_event_date = ev_date ev\<rparr>],
                imported := imported st + 1,
                cancellations_matched := cancellations_matched st + 1\<rparr>) \<and>
         map_of (AList.delete a active) = (map_of active)(a := None)"
    by blast
next
  assume "d1 < d2 \<and> d2 \<le> d3"
  then have o: "d1 \<le> d2" "d2 \<le> d3" "d1 < d2" "d1 \<le> d3" by auto
  then show "reconcile_user u
        [\<lparr>ev_date = d1, ev_amount = Some 5, ev_type = Created, ev_username = n1\<rparr>,
         \<lparr>ev_date = d2, ev_amount = Some 9, ev_type = Created, ev_username = n2\<rparr>,
         \<lparr>ev_date = d3, ev_amount = None, ev_type = Cancelled, ev_username = n3\<rparr>]
        init_state =
      ([(Some 5, d1)],
       \<lparr>rows = [\<lparr>row_user_id = u, row_username = n1, row_amount = Some 5,
                  row_event_type = Created, row_event_date = d1\<rparr>,
                 \<lparr>row_user_id = u, row_username = n2, row_amount = Some 9,
                  row_event_type = Created, row_event_date = d2\<rparr>,
                 \<lparr>row_user_id = u, row_username = n3, row_amount = Some 9,
                  row_event_type = Cancelled, row_event_date = d3\<rparr>],
        imported = 3, cancellations_matched = 1, cancellations_unmatched = 0\<rparr>)"
    by (simp add: reconcile_user_def walk_events_def process_event_def insert_row_def
          init_state_def Let_def)
qed

theorem cancelled_closes_latest_open_tier_witness:
  "ev_type \<lparr>ev_date = [51], ev_amount = None, ev_type = Cancelled, ev_username = None\<rparr>
     = Cancelled \<and>
   [(Some 5, [49]), (Some 9, [50 :: nat])] \<noteq> [] \<and>
   fst (process_event [64, 98]
          \<lparr>ev_date = [51], ev_amount = None, ev_type = Cancelled, ev_username = None\<rparr>
          ([(Some 5, [49]), (Some 9, [50])], init_state)) = [(Some 5, [49])] \<and>
   map row_amount (rows (snd (process_event [64, 98]
          \<lparr>ev_date = [51], ev_amount = None, ev_type = Cancelled, ev_username = None\<rparr>
          ([(Some 5, [49]), (Some 9, [50])], init_state)))) = [Some 9] \<and>
   [49 :: nat] < [50] \<and> [50 :: nat] \<le> [51] \<and>
   fst (reconcile_user [64, 98]
        [\<lparr>ev_date = [49], ev_amount = Some 5, ev_type = Created, ev_username = None\<rparr>,
         \<lparr>ev_date = [50], ev_amount = Some 9, ev_type = Created, ev_username = None\<rparr>,
         \<lparr>ev_date = [51], ev_amount = None, ev_type = Cancelled, ev_username = None\<rparr>]
        init_state) = [(Some 5, [49])] \<and>
   map row_amount (rows (snd (reconcile_user [64, 98]
        [\<lparr>ev_date = [49], ev_amount = Some 5, ev_type = Created, ev_username = None\<rparr>,
         \<lparr>ev_date = [50], ev_amount = Some 9, ev_type = Created, ev_username = None\<rparr>,
         \<lparr>ev_date = [51], ev_amount = None, ev_type = Cancelled, ev_username = None\<rparr>]
        init_state))) = [Some 5, Some 9, Some 9]"
  using cancelled_closes_latest_open_tier
    [of "\<lparr>ev_date = [51], ev_amount = None, ev_type = Cancelled, ev_username = None\<rparr>"
        "[(Some 5, [49]), (Some 9, [50])]" "[64, 98]" init_state
        "[49]" "[50]" "[51]" None None None]
  by (simp add: process_event_def insert_row_def init_state_def Let_def)

text \<open>
  Claim C2, as stated, fails: a \<open>subscription.renewed\<close> event is only inserted as a row
  ("just insert"), \<open>active_amounts\<close> is not touched, so after a renewal of amount 5 with
  no open amount the map is still empty and the cancellation that follows is counted
  as unmatched.
\<close>

theorem renewed_opens_no_tier_counterexample:
  "fst (process_event [64, 98]
          \<lparr>ev_date = [49], ev_amount = Some 5, ev_type = Renewed, ev_username = None\<rparr>
          ([], init_state)) = [] \<and>
   reconcile_user [64, 98]
     [\<lparr>ev_date = [49], ev_amount = Some 5, ev_type = Renewed, ev_username = None\<rparr>,
      \<lparr>ev_date = [50], ev_amount = None, ev_type = Cancelled, ev_username = None\<rparr>]
     init_state =
   ([], \<lparr>rows = [\<lparr>row_user_id = [64, 98], row_username = None, row_amount = Some 5,
                   row_event_type = Renewed, row_event_date = [49]\<rparr>],
         imported = 1, cancellations_matched = 0, cancellations_unmatched = 1\<rparr>)"
  by (simp add: reconcile_user_def walk_events_def process_event_def insert_row_def
        init_state_def Let_def)

text \<open>
  Claim C2, amended. Processing a \<open>subscription.renewed\<close> event inserts its row and
  leaves \<open>active_amounts\<close> as it was; only \<open>subscription.created\<close> events open an amount.
  Hence for a user without any \<open>subscription.created\<close> event no cancellation is
  matched: every \<open>subscription.cancelled\<close> event of the user is counted as unmatched,
  whatever renewals precede it.
\<close>

theorem renewed_leaves_open_tiers_unchanged:
  "(ev_type ev = Renewed \<longrightarrow>
      process_event u ev (active, st) = (active, insert_row u ev (ev_amount ev) st)) \<and>
   (count_type Created events = 0 \<longrightarrow>
      fst (reconcile_user u events st) = [] \<and>
      cancellations_matched (snd (reconcile_user u events st)) = cancellations_matched st \<and>
      cancellations_unmatched (snd (reconcile_user u events st))
        = cancellations_unmatched st + count_type Cancelled events)"
proof (intro conjI impI)
  assume "ev_type ev = Renewed"
  then show "process_event u ev (active, st) = (active, insert_row u ev (ev_amount ev) st)"
    by (simp add: process_event_def)
next
  assume "count_type Created events = 0"
  then have "\<forall>e \<in> set (sort_key ev_date events). ev_type e \<noteq> Created"
    by (simp add: count_type_zero)
  then have w: "fst (walk_events u (sort_key ev_date events) ([], st)) = [] \<and>
     cancellations_matched (snd (walk_events u (sort_key ev_date events) ([], st)))
       = cancellations_matched st \<and>
     cancellations_unmatched (snd (walk_events u (sort_key ev_date events) ([], st)))
       = cancellations_unmatched st + count_type Cancelled (sort_key ev_date events)"
    by (rule walk_events_without_created)
  from w show "fst (reconcile_user u events st) = []"
    by (simp add: reconcile_user_def)
  from w show "cancellations_matched (snd (reconcile_user u events st))
                 = cancellations_matched st"
    by (simp add: reconcile_user_def)
  from w show "cancellations_unmatched (snd (reconcile_user u events st))
                 = cancellations_unmatched st + count_type Cancelled events"
    by (simp add: reconcile_user_def count_type_sort)
qed

theorem renewed_leaves_open_tiers_unchanged_witness:
  "ev_type \<lparr>ev_date = [49], ev_amount = Some 5, ev_type = Renewed, ev_username = None\<rparr>
     = Renewed \<and>
   fst (process_event [64, 98]
          \<lparr>ev_date = [49], ev_amount = Some 5, ev_type = Renewed, ev_username = None\<rparr>
          ([(Some 3, [48])], init_state)) = [(Some 3, [48])] \<and>
   count_type Created
     [\<lparr>ev_date = [49], ev_amount = Some 5, ev_type = Renewed, ev_username = None\<rparr>,
      \<lparr>ev_date = [50], ev_amount = None, ev_type = Cancelled, ev_username = None\<rparr>] = 0 \<and>
   cancellations_unmatched (snd (reconcile_user [64, 98]
     [\<lparr>ev_date = [49], ev_amount = Some 5, ev_type = Renewed, ev_username = None\<rparr>,
      \<lparr>ev_date = [50], ev_amount = None, ev_type = Cancelled, ev_username = None\<rparr>]
     init_state)) = 1"
  using renewed_leaves_open_tiers_unchanged
    [of "\<lparr>ev_date = [49], ev_amount = Some 5, ev_type = Renewed, ev_username = None\<rparr>"
        "[64, 98]" "[(Some 3, [48])]" init_state
        "[\<lparr>ev_date = [49], ev_amount = Some 5, ev_type = Renewed, ev_username = None\<rparr>,
          \<lparr>ev_date = [50], ev_amount = None, ev_type = Cancelled, ev_username = None\<rparr>]"]
  by (simp add: count_type_def init_state_def)

text \<open>
  Claim C3. A \<open>subscription.cancelled\<close> event that meets an empty \<open>active_amounts\<close>
  inserts no row, adds exactly one to \<open>cancellations_unmatched\<close> and changes nothing
  else (the branch has no failing operation); so a user whose only event is a
  cancellation ends with no row and an unmatched count of 1.
\<close>

theorem cancelled_without_open_tier_is_unmatched:
  assumes "ev_type ev = Cancelled"
  shows "process_event u ev ([], st) =
           ([], st\<lparr>cancellations_unmatched := cancellations_unmatched st + 1\<rparr>) \<and>
         reconcile_user u [ev] init_state = ([], init_state\<lparr>cancellations_unmatched := 1\<rparr>)"
  using assms
  by (simp add: process_event_def reconcile_user_def walk_events_def init_state_def)

theorem cancelled_without_open_tier_is_unmatched_witness:
  "ev_type \<lparr>ev_date = [50], ev_amount = None, ev_type = Cancelled, ev_username = None\<rparr>
     = Cancelled \<and>
   rows (snd (reconcile_user [64, 98]
     [\<lparr>ev_date = [50], ev_amount = None, ev_type = Cancelled, ev_username = None\<rparr>]
     init_state)) = [] \<and>
   cancellations_unmatched (snd (reconcile_user [64, 98]
     [\<lparr>ev_date = [50], ev_amount = None, ev_type = Cancelled, ev_username = None\<rparr>]
     init_state)) = 1"
  using cancelled_without_open_tier_is_unmatched
    [of "\<lparr>ev_date = [50], ev_amount = None, ev_type = Cancelled, ev_username = None\<rparr>"
        "[64, 98]" init_state]
  by (simp add: init_state_def)

text \<open>
  Claim C9. For every list of events of a user, the number of
  \<open>subscription.cancelled\<close> rows the reconciler inserts for the user (which is also the
  amount added to \<open>cancellations_matched\<close>) is at most the number of the user's
  \<open>subscription.created\<close> events plus the number of the user's
  \<open>subscription.renewed\<close> events.
\<close>

theorem matched_cancellations_bounded:
  "cancelled_rows (snd (reconcile_user u events init_state))
     \<le> count_type Created events + count_type Renewed events \<and>
   cancellations_matched (snd (reconcile_user u events init_state))
     = cancelled_rows (snd (reconcile_user u events init_state))"
proof -
  obtain a' s' where r: "reconcile_user u events init_state = (a', s')"
    by (cases "reconcile_user u events init_state")
  then have w: "walk_events u (sort_key ev_date events) ([], init_state) = (a', s')"
    by (simp add: reconcile_user_def)
  then have "length a' + cancelled_rows s'
               \<le> length ([] :: active_amounts) + cancelled_rows init_state
                   + count_type Created (sort_key ev_date events)"
    by (rule walk_events_bound)
  then have bound: "cancelled_rows s' \<le> count_type Created events"
    by (simp add: count_type_sort cancelled_rows_def init_state_def)
  have "cancellations_matched s' + cancelled_rows init_state
          = cancellations_matched init_state + cancelled_rows s'"
    using w by (rule walk_events_matched_rows)
  then have link: "cancellations_matched s' = cancelled_rows s'"
    by (simp add: cancelled_rows_def init_state_def)
  from r bound link show ?thesis by simp
qed

theorem matched_cancellations_bounded_witness:
  "cancelled_rows (snd (reconcile_user [64, 98]
      [\<lparr>ev_date = [51], ev_amount = None, ev_type = Cancelled, ev_username = None\<rparr>,
       \<lparr>ev_date = [49], ev_amount = Some 5, ev_type = Created, ev_username = None\<rparr>,
       \<lparr>ev_date = [50], ev_amount = None, ev_type = Cancelled, ev_username = None\<rparr>]
      init_state)) = 1 \<and>
   (1::nat) \<le> count_type Created
      [\<lparr>ev_date = [51], ev_amount = None, ev_type = Cancelled, ev_username = None\<rparr>,
       \<lparr>ev_date = [49], ev_amount = Some 5, ev_type = Created, ev_username = None\<rparr>,
       \<lparr>ev_date = [50], ev_amount = None, ev_type = Cancelled, ev_username = None\<rparr>]
     + count_type Renewed
      [\<lparr>ev_date = [51], ev_amount = None, ev_type = Cancelled, ev_username = None\<rparr>,
       \<lparr>ev_date = [49], ev_amount = Some 5, ev_type = Created, ev_username = None\<rparr>,
       \<lparr>ev_date = [50], ev_amount = None, ev_type = Cancelled, ev_username = None\<rparr>]"
  using matched_cancellations_bounded [of "[64, 98]"
      "[\<lparr>ev_date = [51], ev_amount = None, ev_type = Cancelled, ev_username = None\<rparr>,
       \<lparr>ev_date = [49], ev_amount = Some 5, ev_type = Created, ev_username = None\<rparr>,
       \<lparr>ev_date = [50], ev_amount = None, ev_type = Cancelled, ev_username = None\<rparr>]"]
  by (simp add: reconcile_user_def walk_events_def process_event_def insert_row_def
        init_state_def cancelled_rows_def count_type_def Let_def)

section \<open>Properties of the extractor\<close>




lemma py_float_0_00: "py_float (amount_text [8364, 48, 44, 48, 48]) = Some 0"
  by (simp add: py_float_def amount_text_def replace_char_def euro_def strip_def
        is_space_def unsigned_float_def is_digit_def digits_value_def)




lemma scan_user_id_find:
  "scan_user_id es =
     (case find (\<lambda>e. ent_type e = ''mention'' \<or>
                      (ent_type e = ''mention_name'' \<and>
                       (case ent_user_id e of Some uid \<Rightarrow> uid \<noteq> 0 | None \<Rightarrow> False))) es of
        None \<Rightarrow> None
      | Some e \<Rightarrow>
          if ent_type e = ''mention'' then Some (strip (ent_text e))
          else (case ent_user_id e of
                  Some uid \<Rightarrow> Some ([117, 115, 101, 114, 95] @ str_int uid)
                | None \<Rightarrow> None))"
  by (induction es) (auto split: option.splits)

text \<open>
  Claim C8, as stated, fails: for a \<open>mention\<close> entity the user key is the trimmed text
  of the entity itself; no \<open>@\<close> is put in front of it.
\<close>

theorem mention_key_has_no_added_at_sign_counterexample:
  "extract_user_id
     \<lparr>m_text = TextStr [],
      text_entities = [\<lparr>ent_type = ''mention'', ent_text = [64, 98, 111, 98], ent_user_id = None\<rparr>],
      m_date = None\<rparr> = Some [64, 98, 111, 98] \<and>
   extract_user_id
     \<lparr>m_text = TextStr [],
      text_entities = [\<lparr>ent_type = ''mention'', ent_text = [64, 98, 111, 98], ent_user_id = None\<rparr>],
      m_date = None\<rparr> \<noteq> Some ([64] @ strip [64, 98, 111, 98])"
  by (simp add: extract_user_id_def strip_def is_space_def)

text \<open>
  Claim C8, amended. The entity list is scanned in order and the first usable entity
  decides: a \<open>mention\<close> entity gives its trimmed text as the key (nothing is added in
  front), a \<open>mention_name\<close> entity with a non-zero \<open>user_id\<close> gives \<open>user_\<close> followed by
  the decimal id, and a \<open>mention_name\<close> entity without such an id is passed over. When
  no entity is usable there is no key and each of the three scripts skips the message.
\<close>

theorem user_key_is_first_usable_identity_entity:
  "extract_user_id m =
     (case find (\<lambda>e. ent_type e = ''mention'' \<or>
                      (ent_type e = ''mention_name'' \<and>
                       (case ent_user_id e of Some uid \<Rightarrow> uid \<noteq> 0 | None \<Rightarrow> False)))
             (text_entities m) of
        None \<Rightarrow> None
      | Some e \<Rightarrow>
          if ent_type e = ''mention'' then Some (strip (ent_text e))
          else (case ent_user_id e of
                  Some uid \<Rightarrow> Some ([117, 115, 101, 114, 95] @ str_int uid)
                | None \<Rightarrow> None)) \<and>
   (extract_user_id m = None \<longrightarrow>
      collect_event m = None \<and> analyze_message m ud = ud \<and> import_message m = None)"
proof (intro conjI impI)
  show "extract_user_id m =
     (case find (\<lambda>e. ent_type e = ''mention'' \<or>
                      (ent_type e = ''mention_name'' \<and>
                       (case ent_user_id e of Some uid \<Rightarrow> uid \<noteq> 0 | None \<Rightarrow> False)))
             (text_entities m) of
        None \<Rightarrow> None
      | Some e \<Rightarrow>
          if ent_type e = ''mention'' then Some (strip (ent_text e))
          else (case ent_user_id e of
                  Some uid \<Rightarrow> Some ([117, 115, 101, 114, 95] @ str_int uid)
                | None \<Rightarrow> None))"
    unfolding extract_user_id_def by (rule scan_user_id_find)
next
  assume n: "extract_user_id m = None"
  show "collect_event m = None" using n by (simp add: collect_event_def)
  show "analyze_message m ud = ud" using n by (simp add: analyze_message_def)
  show "import_message m = None" using n by (simp add: import_message_def)
qed

theorem user_key_is_first_usable_identity_entity_witness:
  "extract_user_id
     \<lparr>m_text = TextStr [],
      text_entities =
        [\<lparr>ent_type = ''bold'', ent_text = [8364, 53], ent_user_id = None\<rparr>,
         \<lparr>ent_type = ''mention_name'', ent_text = [66, 111, 98], ent_user_id = None\<rparr>,
         \<lparr>ent_type = ''mention_name'', ent_text = [66, 111, 98], ent_user_id = Some 123\<rparr>,
         \<lparr>ent_type = ''mention'', ent_text = [32, 64, 98, 111, 98], ent_user_id = None\<rparr>],
      m_date = None\<rparr> = Some [117, 115, 101, 114, 95, 49, 50, 51] \<and>
   extract_user_id
     \<lparr>m_text = TextStr created_phrase,
      text_entities = [\<lparr>ent_type = ''bold'', ent_text = [8364, 53], ent_user_id = None\<rparr>],
      m_date = Some [49]\<rparr> = None \<and>
   collect_event
     \<lparr>m_text = TextStr created_phrase,
      text_entities = [\<lparr>ent_type = ''bold'', ent_text = [8364, 53], ent_user_id = None\<rparr>],
      m_date = Some [49]\<rparr> = None"
  using user_key_is_first_usable_identity_entity
    [of "\<lparr>m_text = TextStr [],
      text_entities =
        [\<lparr>ent_type = ''bold'', ent_text = [8364, 53], ent_user_id = None\<rparr>,
         \<lparr>ent_type = ''mention_name'', ent_text = [66, 111, 98], ent_user_id = None\<rparr>,
         \<lparr>ent_type = ''mention_name'', ent_text = [66, 111, 98], ent_user_id = Some 123\<rparr>,
         \<lparr>ent_type = ''mention'', ent_text = [32, 64, 98, 111, 98], ent_user_id = None\<rparr>],
      m_date = None\<rparr>" "[]"]
    user_key_is_first_usable_identity_entity
    [of "\<lparr>m_text = TextStr created_phrase,
      text_entities = [\<lparr>ent_type = ''bold'', ent_text = [8364, 53], ent_user_id = None\<rparr>],
      m_date = Some [49]\<rparr>" "[]"]
  by (simp add: str_int_def str_nat.simps)



section \<open>Properties of the figures per amount\<close>







lemma sorted_below_index:
  fixes ys :: "nat list"
  assumes "sorted ys" and "k < length ys"
  shows "length (filter (\<lambda>r. r < ys ! k) ys) \<le> k"
proof -
  have "\<forall>x \<in> set (drop k ys). \<not> x < ys ! k"
  proof
    fix x assume "x \<in> set (drop k ys)"
    then obtain i where i: "i < length (drop k ys)" "x = drop k ys ! i"
      by (auto simp: in_set_conv_nth)
    then have "x = ys ! (k + i)" and "k + i < length ys" by auto
    with assms have "ys ! k \<le> x" by (simp add: sorted_nth_mono)
    then show "\<not> x < ys ! k" by simp
  qed
  then have "filter (\<lambda>r. r < ys ! k) (drop k ys) = []" by (simp add: filter_empty_conv)
  moreover have "filter (\<lambda>r. r < ys ! k) ys
      = filter (\<lambda>r. r < ys ! k) (take k ys) @ filter (\<lambda>r. r < ys ! k) (drop k ys)"
    by (metis append_take_drop_id filter_append)
  ultimately have "length (filter (\<lambda>r. r < ys ! k) ys)
      = length (filter (\<lambda>r. r < ys ! k) (take k ys))" by simp
  also have "\<dots> \<le> length (take k ys)" by (rule length_filter_le)
  also have "\<dots> \<le> k" by simp
  finally show ?thesis .
qed

lemma sorted_above_index:
  fixes ys :: "nat list"
  assumes "sorted ys" and "k < length ys"
  shows "length (filter (\<lambda>r. ys ! k < r) ys) \<le> length ys - Suc k"
proof -
  have "\<forall>x \<in> set (take (Suc k) ys). \<not> ys ! k < x"
  proof
    fix x assume "x \<in> set (take (Suc k) ys)"
    then obtain i where i: "i < length (take (Suc k) ys)" "x = take (Suc k) ys ! i"
      by (auto simp: in_set_conv_nth)
    then have "x = ys ! i" and "i \<le> k" by auto
    with assms have "x \<le> ys ! k" by (simp add: sorted_nth_mono)
    then show "\<not> ys ! k < x" by simp
  qed
  then have "filter (\<lambda>r. ys ! k < r) (take (Suc k) ys) = []" by (simp add: filter_empty_conv)
  moreover have "filter (\<lambda>r. ys ! k < r) ys
      = filter (\<lambda>r. ys ! k < r) (take (Suc k) ys) @ filter (\<lambda>r. ys ! k < r) (drop (Suc k) ys)"
    by (metis append_take_drop_id filter_append)
  ultimately have "length (filter (\<lambda>r. ys ! k < r) ys)
      = length (filter (\<lambda>r. ys ! k < r) (drop (Suc k) ys))" by simp
  also have "\<dots> \<le> length (drop (Suc k) ys)" by (rule length_filter_le)
  also have "\<dots> = length ys - Suc k" by simp
  finally show ?thesis .
qed

lemma length_filter_sort:
  "length (filter P (sort xs)) = length (filter P (xs :: nat list))"
proof -
  have "filter P (sort xs) = sort (filter P xs)" by (rule filter_sort)
  then show ?thesis by simp
qed

lemma buckets_cover:
  "length (filter (\<lambda>r. r = 0) rpu) + length (filter (\<lambda>r. r = 1) rpu)
     + length (filter (\<lambda>r. r > 1) rpu) = length (rpu :: nat list)"
  by (induction rpu) auto

text \<open>
  Claim C6, as stated, fails: on a list of even length the index \<open>len // 2\<close> selects the
  upper of the two middle elements of the sorted list; for the counts 0, 1, 2, 3 the
  reported median is 2, while the lower middle element is 1.
\<close>

theorem median_is_not_lower_middle_counterexample:
  "renewal_distribution [0, 1, 2, 3] =
     Some \<lparr>dist_min = 0, dist_max = 3, dist_median = 2, no_renewals = 1, one_renewal = 1,
           multiple_renewals = 2\<rparr> \<and>
   sort [0, 1, 2, 3 :: nat] ! ((length [0, 1, 2, 3 :: nat] - 1) div 2) = 1"
  by (simp add: renewal_distribution_def)

text \<open>
  Claim C6, amended. For every non-empty list of renewal counts the reported median is
  the element at index \<open>length div 2\<close> of the ascending sorted list, hence the middle
  element for an odd length and the upper of the two middle elements for an even
  length: it is one of the counts, at most \<open>length div 2\<close> counts are smaller and at
  most \<open>(length - 1) div 2\<close> counts are greater. Minimum and maximum are those of the
  list and the three buckets cover it. In particular the counts 0, 0, 1, 2, 3 give
  minimum 0, maximum 3, median 1 and buckets 2, 1, 2.
\<close>

theorem median_is_element_at_half_length:
  "(rpu \<noteq> [] \<longrightarrow>
      (\<exists>d. renewal_distribution rpu = Some d \<and>
           dist_median d = sort rpu ! (length rpu div 2) \<and>
           dist_median d \<in> set rpu \<and>
           length (filter (\<lambda>r. r < dist_median d) rpu) \<le> length rpu div 2 \<and>
           length (filter (\<lambda>r. dist_median d < r) rpu) \<le> (length rpu - 1) div 2 \<and>
           dist_min d = Min (set rpu) \<and> dist_max d = Max (set rpu) \<and>
           no_renewals d + one_renewal d + multiple_renewals d = length rpu)) \<and>
   renewal_distribution [0, 0, 1, 2, 3] =
     Some \<lparr>dist_min = 0, dist_max = 3, dist_median = 1, no_renewals = 2, one_renewal = 1,
           multiple_renewals = 2\<rparr>"
proof (intro conjI impI)
  assume ne: "rpu \<noteq> []"
  then obtain x xs where rpu: "rpu = x # xs" by (cases rpu) auto
  let ?k = "length rpu div 2"
  let ?ys = "sort rpu"
  let ?d = "\<lparr>dist_min = fold min xs x, dist_max = fold max xs x,
             dist_median = ?ys ! ?k,
             no_renewals = length (filter (\<lambda>r. r = 0) rpu),
             one_renewal = length (filter (\<lambda>r. r = 1) rpu),
             multiple_renewals = length (filter (\<lambda>r. r > 1) rpu)\<rparr>"
  have d: "renewal_distribution rpu = Some ?d"
    unfolding rpu by (simp add: renewal_distribution_def)
  have k: "?k < length ?ys" using ne by simp
  have srt: "sorted ?ys" by simp
  have mem: "?ys ! ?k \<in> set rpu"
  proof -
    have "?ys ! ?k \<in> set ?ys" using k by (rule nth_mem)
    then show ?thesis by simp
  qed
  have below: "length (filter (\<lambda>r. r < ?ys ! ?k) rpu) \<le> ?k"
  proof -
    have "length (filter (\<lambda>r. r < ?ys ! ?k) ?ys) \<le> ?k"
      using srt k by (rule sorted_below_index)
    then show ?thesis by (simp only: length_filter_sort)
  qed
  have above: "length (filter (\<lambda>r. ?ys ! ?k < r) rpu) \<le> (length rpu - 1) div 2"
  proof -
    have "length (filter (\<lambda>r. ?ys ! ?k < r) ?ys) \<le> length ?ys - Suc ?k"
      using srt k by (rule sorted_above_index)
    then have "length (filter (\<lambda>r. ?ys ! ?k < r) rpu) \<le> length ?ys - Suc ?k"
      by (simp only: length_filter_sort)
    moreover have "length ?ys - Suc ?k = (length rpu - 1) div 2"
    proof -
      have "0 < length rpu" using ne by simp
      then have "length rpu - Suc (length rpu div 2) = (length rpu - 1) div 2"
        by presburger
      then show ?thesis by simp
    qed
    ultimately show ?thesis by simp
  qed
  have mn: "fold min xs x = Min (set rpu)" unfolding rpu by (rule Min.set_eq_fold [symmetric])
  have mx: "fold max xs x = Max (set rpu)" unfolding rpu by (rule Max.set_eq_fold [symmetric])
  have bk: "length (filter (\<lambda>r. r = 0) rpu) + length (filter (\<lambda>r. r = 1) rpu)
     + length (filter (\<lambda>r. r > 1) rpu) = length rpu" by (rule buckets_cover)
  show "\<exists>d. renewal_distribution rpu = Some d \<and>
           dist_median d = sort rpu ! (length rpu div 2) \<and>
           dist_median d \<in> set rpu \<and>
           length (filter (\<lambda>r. r < dist_median d) rpu) \<le> length rpu div 2 \<and>
           length (filter (\<lambda>r. dist_median d < r) rpu) \<le> (length rpu - 1) div 2 \<and>
           dist_min d = Min (set rpu) \<and> dist_max d = Max (set rpu) \<and>
           no_renewals d + one_renewal d + multiple_renewals d = length rpu"
  proof (intro exI conjI)
    show "renewal_distribution rpu = Some ?d" by (rule d)
  qed (use mem below above mn mx bk in simp_all)
next
  show "renewal_distribution [0, 0, 1, 2, 3] =
     Some \<lparr>dist_min = 0, dist_max = 3, dist_median = 1, no_renewals = 2, one_renewal = 1,
           multiple_renewals = 2\<rparr>"
    by (simp add: renewal_distribution_def)
qed

theorem median_is_element_at_half_length_witness:
  "[3, 0, 2, 1 :: nat] \<noteq> [] \<and>
   (\<exists>d. renewal_distribution [3, 0, 2, 1] = Some d \<and> dist_median d = 2 \<and>
        dist_min d = 0 \<and> dist_max d = 3)"
  using median_is_element_at_half_length [of "[3, 0, 2, 1]"]
  by auto

section \<open>Properties of the subscriber sets\<close>

lemma entry_of_update:
  "entry_of (AList.update u e ud) u' = (if u' = u then e else entry_of ud u')"
  by (simp add: entry_of_def update_conv')

lemma has_subscription_info: "has_subscription a e \<longleftrightarrow> subscriptions (info_of e a) \<noteq> []"
  by (simp add: has_subscription_def info_of_def split: option.splits)

lemma info_of_update:
  "info_of (e\<lparr>tiers := AList.update a i (tiers e)\<rparr>) a' = (if a' = a then i else info_of e a')"
  by (simp add: info_of_def update_conv')

lemma info_of_cancelled: "info_of (e\<lparr>cancelled_mark := c\<rparr>) a = info_of e a"
  by (simp add: info_of_def)

lemma has_subscription_add_subscription:
  "has_subscription a' (entry_of (add_subscription u a d ud) u')
     \<longleftrightarrow> (u' = u \<and> a' = a) \<or> has_subscription a' (entry_of ud u')"
  by (simp add: add_subscription_def Let_def entry_of_update has_subscription_info
        info_of_update)

lemma has_subscription_add_renewal:
  "has_subscription a' (entry_of (add_renewal u a d ud) u')
     \<longleftrightarrow> has_subscription a' (entry_of ud u')"
  by (simp add: add_renewal_def Let_def entry_of_update has_subscription_info info_of_update)

lemma has_subscription_set_cancelled:
  "has_subscription a' (entry_of (set_cancelled u d ud) u')
     \<longleftrightarrow> has_subscription a' (entry_of ud u')"
  by (simp add: set_cancelled_def entry_of_update has_subscription_info info_of_cancelled)

lemma has_subscription_analyze_message:
  "has_subscription a (entry_of (analyze_message m ud) u)
     \<longleftrightarrow> created_event m u a \<or> has_subscription a (entry_of ud u)"
proof (cases "extract_user_id m")
  case None
  then show ?thesis by (simp add: analyze_message_def created_event_def)
next
  case (Some uid)
  show ?thesis
  proof (cases "uid = []")
    case True
    with Some show ?thesis by (auto simp: analyze_message_def created_event_def)
  next
    case False
    show ?thesis
    proof (cases "contains created_phrase (extract_text m)")
      case True
      with Some False show ?thesis
        by (auto simp: analyze_message_def created_event_def Let_def
              has_subscription_add_subscription split: option.splits)
    next
      case nc: False
      with Some False show ?thesis
        by (auto simp: analyze_message_def created_event_def Let_def
              has_subscription_add_renewal has_subscription_set_cancelled
              split: option.splits)
    qed
  qed
qed

lemma has_subscription_collect:
  "has_subscription a (entry_of (foldl (\<lambda>ud m. analyze_message m ud) ud0 messages) u)
     \<longleftrightarrow> (\<exists>m \<in> set messages. created_event m u a) \<or> has_subscription a (entry_of ud0 u)"
proof (induction messages arbitrary: ud0)
  case Nil
  show ?case by simp
next
  case (Cons m ms)
  have "has_subscription a (entry_of (foldl (\<lambda>ud m. analyze_message m ud) ud0 (m # ms)) u)
      \<longleftrightarrow> has_subscription a
            (entry_of (foldl (\<lambda>ud m. analyze_message m ud) (analyze_message m ud0) ms) u)"
    by simp
  also have "\<dots> \<longleftrightarrow> (\<exists>m' \<in> set ms. created_event m' u a)
                      \<or> has_subscription a (entry_of (analyze_message m ud0) u)"
    by (rule Cons.IH)
  also have "\<dots> \<longleftrightarrow> (\<exists>m' \<in> set (m # ms). created_event m' u a)
                      \<or> has_subscription a (entry_of ud0 u)"
    by (auto simp: has_subscription_analyze_message)
  finally show ?case .
qed

lemma distinct_analyze_message:
  "distinct (map fst ud) \<Longrightarrow> distinct (map fst (analyze_message m ud))"
  by (auto simp: analyze_message_def add_subscription_def add_renewal_def set_cancelled_def
        Let_def distinct_update split: option.splits)

lemma distinct_collect:
  "distinct (map fst ud0) \<Longrightarrow>
     distinct (map fst (foldl (\<lambda>ud m. analyze_message m ud) ud0 messages))"
  by (induction messages arbitrary: ud0) (simp_all add: distinct_analyze_message)

lemma users_with_amount_mem:
  "u \<in> users_with_amount a ud \<longleftrightarrow> (\<exists>e'. (u, e') \<in> set ud \<and> has_subscription a e')"
proof
  assume "u \<in> users_with_amount a ud"
  then obtain p where p: "p \<in> set ud" "has_subscription a (snd p)" "fst p = u"
    unfolding users_with_amount_def by (auto simp: case_prod_beta)
  then have "(u, snd p) \<in> set ud" by (cases p) auto
  with p show "\<exists>e'. (u, e') \<in> set ud \<and> has_subscription a e'" by blast
next
  assume "\<exists>e'. (u, e') \<in> set ud \<and> has_subscription a e'"
  then obtain e' where e': "(u, e') \<in> set ud" "has_subscription a e'" by blast
  then have "(u, e') \<in> set (filter (\<lambda>(u, e). has_subscription a e) ud)" by simp
  then have "fst (u, e') \<in> fst ` set (filter (\<lambda>(u, e). has_subscription a e) ud)"
    by (rule imageI)
  then show "u \<in> users_with_amount a ud" by (simp add: users_with_amount_def)
qed

lemma users_with_amount_iff:
  assumes "distinct (map fst ud)"
  shows "u \<in> users_with_amount a ud \<longleftrightarrow> has_subscription a (entry_of ud u)"
proof (cases "map_of ud u")
  case None
  have no: "\<And>e'. (u, e') \<notin> set ud"
  proof
    fix e' assume "(u, e') \<in> set ud"
    with assms have "map_of ud u = Some e'" by (rule map_of_is_SomeI)
    with None show False by simp
  qed
  then have "u \<notin> users_with_amount a ud" by (simp add: users_with_amount_mem)
  moreover have "\<not> has_subscription a (entry_of ud u)"
    using None by (simp add: entry_of_def has_subscription_def)
  ultimately show ?thesis by simp
next
  case (Some e)
  then have e: "entry_of ud u = e" by (simp add: entry_of_def)
  have in_ud: "(u, e) \<in> set ud" using Some by (rule map_of_SomeD)
  have uniq: "\<And>e'. (u, e') \<in> set ud \<Longrightarrow> e' = e"
  proof -
    fix e' assume "(u, e') \<in> set ud"
    with assms have "map_of ud u = Some e'" by (rule map_of_is_SomeI)
    with Some show "e' = e" by simp
  qed
  have "u \<in> users_with_amount a ud \<longleftrightarrow> (\<exists>e'. (u, e') \<in> set ud \<and> has_subscription a e')"
    by (rule users_with_amount_mem)
  also have "\<dots> \<longleftrightarrow> has_subscription a e"
    using in_ud uniq by blast
  finally show ?thesis by (simp only: e)
qed

text \<open>
  Claim C4, amended. For every list of messages and every amount, a user is in the
  subscriber set of the amount if and only if some message is recorded as a
  subscription (a created event) of that user at that amount. Renewals do not count:
  the loop takes a user only when the \<open>subscriptions\<close> list under the amount is not
  empty, so a user with renewals only is not a subscriber of the amount.
\<close>

theorem subscribers_are_users_with_a_created_event:
  "u \<in> users_with_amount amount (collect_user_data messages)
     \<longleftrightarrow> (\<exists>m \<in> set messages. created_event m u amount)"
proof -
  have d: "distinct (map fst (collect_user_data messages))"
    unfolding collect_user_data_def by (rule distinct_collect) simp
  have "u \<in> users_with_amount amount (collect_user_data messages)
          \<longleftrightarrow> has_subscription amount (entry_of (collect_user_data messages) u)"
    using d by (rule users_with_amount_iff)
  also have "\<dots> \<longleftrightarrow> (\<exists>m \<in> set messages. created_event m u amount)
                      \<or> has_subscription amount (entry_of [] u)"
    unfolding collect_user_data_def by (rule has_subscription_collect)
  also have "\<dots> \<longleftrightarrow> (\<exists>m \<in> set messages. created_event m u amount)"
    by (simp add: entry_of_def has_subscription_def)
  finally show ?thesis .
qed

lemma py_float_5: "py_float (amount_text [8364, 53]) = Some 5"
  by (simp add: py_float_def amount_text_def replace_char_def euro_def strip_def
        is_space_def unsigned_float_def is_digit_def digits_value_def)

lemma strip_at_b: "strip [64, 98] = [64, 98]"
  by (simp add: strip_def is_space_def)

lemma created_not_in_renewed: "\<not> contains created_phrase renewed_phrase"
  by (simp add: created_phrase_def renewed_phrase_def)

lemma renewed_in_renewed: "contains renewed_phrase renewed_phrase"
  by (simp add: renewed_phrase_def)

lemma created_in_created: "contains created_phrase created_phrase"
  by (simp add: created_phrase_def)

text \<open>
  Claim C4, as stated, fails: a user whose only message is a renewal at amount 5 has
  the renewal recorded under the amount, and is not in the subscriber set of 5.
\<close>

theorem renewed_only_user_is_not_counted_counterexample:
  "renewed_event
     
     \<lparr>m_text = TextStr renewed_phrase,
      text_entities =
        [\<lparr>ent_type = ''mention'', ent_text = [64, 98], ent_user_id = None\<rparr>,
         \<lparr>ent_type = ''bold'', ent_text = [8364, 53], ent_user_id = None\<rparr>],
      m_date = Some [49]\<rparr> [64, 98] 5 \<and>
   collect_user_data [
     \<lparr>m_text = TextStr renewed_phrase,
      text_entities =
        [\<lparr>ent_type = ''mention'', ent_text = [64, 98], ent_user_id = None\<rparr>,
         \<lparr>ent_type = ''bold'', ent_text = [8364, 53], ent_user_id = None\<rparr>],
      m_date = Some [49]\<rparr>] =
     [([64, 98], \<lparr>tiers = [(5, \<lparr>subscriptions = [], renewals = [[49]]\<rparr>)],
                  cancelled_mark = None\<rparr>)] \<and>
   [64, 98] \<notin> users_with_amount 5 (collect_user_data [
     \<lparr>m_text = TextStr renewed_phrase,
      text_entities =
        [\<lparr>ent_type = ''mention'', ent_text = [64, 98], ent_user_id = None\<rparr>,
         \<lparr>ent_type = ''bold'', ent_text = [8364, 53], ent_user_id = None\<rparr>],
      m_date = Some [49]\<rparr>])"
  by (simp add: renewed_event_def collect_user_data_def analyze_message_def
        extract_user_id_def extract_amount_def euro_def py_float_5 strip_at_b
        created_not_in_renewed renewed_in_renewed add_renewal_def entry_of_def info_of_def
        users_with_amount_def has_subscription_def Let_def)

theorem subscribers_are_users_with_a_created_event_witness:
  "created_event 
     \<lparr>m_text = TextStr created_phrase,
      text_entities =
        [\<lparr>ent_type = ''mention'', ent_text = [64, 98], ent_user_id = None\<rparr>,
         \<lparr>ent_type = ''bold'', ent_text = [8364, 53], ent_user_id = None\<rparr>],
      m_date = Some [50]\<rparr> [64, 98] 5 \<and>
   [64, 98] \<in> users_with_amount 5 (collect_user_data [
     \<lparr>m_text = TextStr renewed_phrase,
      text_entities =
        [\<lparr>ent_type = ''mention'', ent_text = [64, 98], ent_user_id = None\<rparr>,
         \<lparr>ent_type = ''bold'', ent_text = [8364, 53], ent_user_id = None\<rparr>],
      m_date = Some [49]\<rparr>, 
     \<lparr>m_text = TextStr created_phrase,
      text_entities =
        [\<lparr>ent_type = ''mention'', ent_text = [64, 98], ent_user_id = None\<rparr>,
         \<lparr>ent_type = ''bold'', ent_text = [8364, 53], ent_user_id = None\<rparr>],
      m_date = Some [50]\<rparr>])"
proof -
  have c: "created_event 
     \<lparr>m_text = TextStr created_phrase,
      text_entities =
        [\<lparr>ent_type = ''mention'', ent_text = [64, 98], ent_user_id = None\<rparr>,
         \<lparr>ent_type = ''bold'', ent_text = [8364, 53], ent_user_id = None\<rparr>],
      m_date = Some [50]\<rparr> [64, 98] 5"
    by (simp add: created_event_def extract_user_id_def extract_amount_def euro_def
          py_float_5 strip_at_b created_in_created)
  then have "\<exists>m \<in> set [
     \<lparr>m_text = TextStr renewed_phrase,
      text_entities =
        [\<lparr>ent_type = ''mention'', ent_text = [64, 98], ent_user_id = None\<rparr>,
         \<lparr>ent_type = ''bold'', ent_text = [8364, 53], ent_user_id = None\<rparr>],
      m_date = Some [49]\<rparr>, 
     \<lparr>m_text = TextStr created_phrase,
      text_entities =
        [\<lparr>ent_type = ''mention'', ent_text = [64, 98], ent_user_id = None\<rparr>,
         \<lparr>ent_type = ''bold'', ent_text = [8364, 53], ent_user_id = None\<rparr>],
      m_date = Some [50]\<rparr>]. created_event m [64, 98] 5" by simp
  then have "[64, 98] \<in> users_with_amount 5 (collect_user_data [
     \<lparr>m_text = TextStr renewed_phrase,
      text_entities =
        [\<lparr>ent_type = ''mention'', ent_text = [64, 98], ent_user_id = None\<rparr>,
         \<lparr>ent_type = ''bold'', ent_text = [8364, 53], ent_user_id = None\<rparr>],
      m_date = Some [49]\<rparr>, 
     \<lparr>m_text = TextStr created_phrase,
      text_entities =
        [\<lparr>ent_type = ''mention'', ent_text = [64, 98], ent_user_id = None\<rparr>,
         \<lparr>ent_type = ''bold'', ent_text = [8364, 53], ent_user_id = None\<rparr>],
      m_date = Some [50]\<rparr>])"
    by (simp only: subscribers_are_users_with_a_created_event)
  with c show ?thesis by simp
qed

end
